theory Spec2Isabelle
  imports Complex_Main
begin

section \<open>Strings\<close>

text \<open>
  Python strings are modelled as \<open>string\<close> (lists of 8-bit characters). Case
  conversion is modelled on the ASCII letters; every other character is left as it is.
  Python's \<^verbatim>\<open>str\<close> methods also map letters outside ASCII (\<^verbatim>\<open>str.capitalize\<close>) and
  count U+0085 and U+00A0 as whitespace (\<^verbatim>\<open>str.strip\<close>); texts with such characters are
  outside this model.
\<close>

definition lower_letters :: string where
  "lower_letters = ''abcdefghijklmnopqrstuvwxyz''"

definition upper_letters :: string where
  "upper_letters = ''ABCDEFGHIJKLMNOPQRSTUVWXYZ''"

definition upper_char :: "char \<Rightarrow> char" where
  "upper_char c = (case map_of (zip lower_letters upper_letters) c of Some u \<Rightarrow> u | None \<Rightarrow> c)"

definition lower_char :: "char \<Rightarrow> char" where
  "lower_char c = (case map_of (zip upper_letters lower_letters) c of Some l \<Rightarrow> l | None \<Rightarrow> c)"

text \<open>\<^verbatim>\<open>str.capitalize()\<close>: first character upper-cased, all others lower-cased.\<close>

fun capitalize :: "string \<Rightarrow> string" where
  "capitalize [] = []"
| "capitalize (c # cs) = upper_char c # map lower_char cs"

section \<open>Data model (server.py)\<close>

text \<open>
  A hook is a JSON object. The code reads the keys \<^verbatim>\<open>text\<close> and \<^verbatim>\<open>emotion\<close> and writes
  \<^verbatim>\<open>used_at\<close>; a key that is absent is \<open>None\<close>. Values are strings, as the corpus
  file format has them.
\<close>

record hook =
  hook_text :: "string option"
  hook_emotion :: "string option"
  hook_used_at :: "string option"

text \<open>An element of a JSON array: a string, an object, or anything else.\<close>

datatype entry = EStr string | EDict hook | EOther

text \<open>
  What \<^verbatim>\<open>json.load\<close> returns: a list, a dict (only its keys matter to the code, which
  iterates it), a string, or a scalar (number, boolean, null).
\<close>

datatype content = CList "entry list" | CDict "string list" | CStr string | CScalar

text \<open>A backing file: missing, not parseable as JSON, or parseable.\<close>

datatype json_file = Absent | Malformed | Parsed content

datatype py_error =
    FileNotFoundError
  | JSONDecodeError
  | TypeError
  | KeyError
  | AttributeError
  | OSError
  | IndexError
  | NoHooksFound
  | RenderError
  | CalledProcessError
  | ValueError

text \<open>The ffmpeg command line of \<^verbatim>\<open>generate_video_internal\<close>, by its varying arguments.\<close>

datatype pyfloat = Finite real | PosInf | NegInf | NaN

record ffmpeg_cmd =
  cmd_input :: string
  cmd_overlay :: string
  cmd_scale :: "int \<times> int"
  cmd_t :: pyfloat
  cmd_output :: string

text \<open>What the server prints.\<close>

datatype event =
    ErrorLoadingHooks py_error
  | ErrorLoadingUsedHooks py_error
  | ErrorMarkingHook py_error
  | RunningFfmpeg ffmpeg_cmd
  | ErrorBatchItem nat py_error
  | Traceback py_error

text \<open>
  The state the server works on: \<^verbatim>\<open>top_hooks.json\<close>, \<^verbatim>\<open>used_hooks.json\<close> and the
  standard output.
\<close>

record world =
  hooks_file :: json_file
  used_hooks_file :: json_file
  printed :: "event list"

section \<open>Hook store\<close>

text \<open>The body of the \<^verbatim>\<open>try\<close> block of \<^verbatim>\<open>load_hooks\<close>.\<close>

fun normalize_entries :: "entry list \<Rightarrow> hook list" where
  "normalize_entries [] = []"
| "normalize_entries (EStr s # es) =
     \<lparr>hook_text = Some s, hook_emotion = Some ''General'', hook_used_at = None\<rparr> # normalize_entries es"
| "normalize_entries (EDict h # es) = h # normalize_entries es"
| "normalize_entries (EOther # es) = normalize_entries es"

fun load_hooks_try :: "json_file \<Rightarrow> py_error + hook list" where
  "load_hooks_try Absent = Inl FileNotFoundError"
| "load_hooks_try Malformed = Inl JSONDecodeError"
| "load_hooks_try (Parsed (CList es)) = Inr (normalize_entries es)"
| "load_hooks_try (Parsed (CDict ks)) = Inr (normalize_entries (map EStr ks))"
| "load_hooks_try (Parsed (CStr s)) = Inr (normalize_entries (map (\<lambda>c. EStr [c]) s))"
| "load_hooks_try (Parsed CScalar) = Inl TypeError"

definition load_hooks :: "world \<Rightarrow> hook list \<times> world" where
  "load_hooks w =
     (case load_hooks_try (hooks_file w) of
        Inr normalized \<Rightarrow> (normalized, w)
      | Inl e \<Rightarrow> ([], w\<lparr>printed := printed w @ [ErrorLoadingHooks e]\<rparr>))"

fun load_used_hooks_try :: "json_file \<Rightarrow> py_error + content" where
  "load_used_hooks_try Absent = Inr (CList [])"
| "load_used_hooks_try Malformed = Inl JSONDecodeError"
| "load_used_hooks_try (Parsed c) = Inr c"

definition load_used_hooks :: "world \<Rightarrow> content \<times> world" where
  "load_used_hooks w =
     (case load_used_hooks_try (used_hooks_file w) of
        Inr c \<Rightarrow> (c, w)
      | Inl e \<Rightarrow> (CList [], w\<lparr>printed := printed w @ [ErrorLoadingUsedHooks e]\<rparr>))"

text \<open>
  \<^verbatim>\<open>[h for h in all_hooks if h['text'] != hook['text']]\<close>: a hook without the key
  \<^verbatim>\<open>text\<close> raises KeyError.
\<close>

fun remove_by_text :: "hook list \<Rightarrow> hook \<Rightarrow> py_error + hook list" where
  "remove_by_text [] hook = Inr []"
| "remove_by_text (h # hs) hook =
     (case hook_text h of
        None \<Rightarrow> Inl KeyError
      | Some t \<Rightarrow>
          (case hook_text hook of
             None \<Rightarrow> Inl KeyError
           | Some t' \<Rightarrow>
               (case remove_by_text hs hook of
                  Inl e \<Rightarrow> Inl e
                | Inr rest \<Rightarrow> Inr (if t \<noteq> t' then h # rest else rest))))"

text \<open>
  Writing a file: \<^verbatim>\<open>open(..., 'w')\<close> may fail and leave the file as it was, or the dump
  may fail after the file was truncated.
\<close>

datatype write_result = WriteOk | OpenFails | DumpFails

record commit_env =
  rand_used_at :: string
  write_hooks :: write_result
  write_used :: write_result

fun write_file :: "write_result \<Rightarrow> content \<Rightarrow> json_file \<Rightarrow> py_error option \<times> json_file" where
  "write_file WriteOk c f = (None, Parsed c)"
| "write_file OpenFails c f = (Some OSError, f)"
| "write_file DumpFails c f = (Some OSError, Malformed)"

text \<open>
  The \<^verbatim>\<open>try\<close> block of \<^verbatim>\<open>mark_hook_as_used\<close>; the first component is the exception
  that left it, if any.
\<close>

definition mark_hook_as_used_try :: "commit_env \<Rightarrow> hook \<Rightarrow> world \<Rightarrow> py_error option \<times> world" where
  "mark_hook_as_used_try env hook w =
     (let (all_hooks, w1) = load_hooks w;
          (used, w2) = load_used_hooks w1
      in case remove_by_text all_hooks hook of
           Inl e \<Rightarrow> (Some e, w2)
         | Inr updated_active \<Rightarrow>
             (let hook' = hook\<lparr>hook_used_at := Some (rand_used_at env)\<rparr>
              in case used of
                   CList us \<Rightarrow>
                     (case write_file (write_hooks env) (CList (map EDict updated_active)) (hooks_file w2) of
                        (Some e, f) \<Rightarrow> (Some e, w2\<lparr>hooks_file := f\<rparr>)
                      | (None, f) \<Rightarrow>
                          (let w3 = w2\<lparr>hooks_file := f\<rparr>
                           in case write_file (write_used env) (CList (EDict hook' # us)) (used_hooks_file w3) of
                                (e, f') \<Rightarrow> (e, w3\<lparr>used_hooks_file := f'\<rparr>)))
                 | _ \<Rightarrow> (Some AttributeError, w2)))"

definition mark_hook_as_used :: "commit_env \<Rightarrow> hook \<Rightarrow> world \<Rightarrow> world" where
  "mark_hook_as_used env hook w =
     (case mark_hook_as_used_try env hook w of
        (None, w') \<Rightarrow> w'
      | (Some e, w') \<Rightarrow> w'\<lparr>printed := printed w' @ [ErrorMarkingHook e]\<rparr>)"

section \<open>Hook selection\<close>

text \<open>\<^verbatim>\<open>random.choice(seq)\<close>, with the random index drawn from \<open>r\<close>.\<close>

definition random_choice :: "nat \<Rightarrow> 'a list \<Rightarrow> py_error + 'a" where
  "random_choice r xs = (if xs = [] then Inl IndexError else Inr (xs ! (r mod length xs)))"

text \<open>Lines 214 to 227 of \<^verbatim>\<open>generate_video_internal\<close>.\<close>

definition select_hook :: "hook list \<Rightarrow> string \<Rightarrow> nat \<Rightarrow> py_error + hook" where
  "select_hook all_hooks emotion r =
     (let target_emotion = capitalize emotion;
          candidates = filter (\<lambda>h. hook_emotion h = Some target_emotion) all_hooks;
          candidates = (if candidates = [] then all_hooks else candidates)
      in if candidates = [] then Inl NoHooksFound else random_choice r candidates)"

section \<open>Overlay text wrapping\<close>

text \<open>
  \<^verbatim>\<open>create_text_overlay\<close> wraps the hook text with \<^verbatim>\<open>textwrap.fill(text, width=max_chars)\<close>,
  \<^verbatim>\<open>max_chars = 30\<close>. \<^verbatim>\<open>fill\<close> is the Python standard library's: it splits the text into
  chunks (words and runs of whitespace, by a regular expression) and lays the chunks out
  with \<^verbatim>\<open>TextWrapper._wrap_chunks\<close>. The layout is modelled here as CPython's
  \<^verbatim>\<open>Lib/textwrap.py\<close> has it, for the options \<^verbatim>\<open>fill\<close> is called with (no indent,
  \<^verbatim>\<open>break_long_words\<close>, \<^verbatim>\<open>break_on_hyphens\<close> and \<^verbatim>\<open>drop_whitespace\<close> set,
  \<^verbatim>\<open>max_lines\<close> unset); the splitting into chunks is a parameter.
\<close>

text \<open>\<^verbatim>\<open>str.isspace\<close> on the ASCII characters.\<close>

definition py_isspace :: "char \<Rightarrow> bool" where
  "py_isspace c =
     (c \<in> set [CHR '' '', CHR 0x09, CHR 0x0A, CHR 0x0B, CHR 0x0C, CHR 0x0D,
                CHR 0x1C, CHR 0x1D, CHR 0x1E, CHR 0x1F])"

text \<open>\<^verbatim>\<open>chunk.strip() == ''\<close>\<close>

definition is_blank :: "string \<Rightarrow> bool" where
  "is_blank s = list_all py_isspace s"

text \<open>
  The inner \<^verbatim>\<open>while\<close> loop of \<^verbatim>\<open>_wrap_chunks\<close>: chunks are taken from the stack as
  long as they fit on the current line. The stack is the list of chunks still to come,
  next chunk first.
\<close>

fun fit_chunks ::
  "nat \<Rightarrow> string list \<Rightarrow> nat \<Rightarrow> string list \<Rightarrow> string list \<times> nat \<times> string list" where
  "fit_chunks width cur_line cur_len [] = (cur_line, cur_len, [])"
| "fit_chunks width cur_line cur_len (c # chunks) =
     (if cur_len + length c \<le> width
      then fit_chunks width (cur_line @ [c]) (cur_len + length c) chunks
      else (cur_line, cur_len, c # chunks))"

text \<open>\<^verbatim>\<open>s.rfind(c, 0, n)\<close>: the last index below \<open>n\<close> at which \<open>c\<close> occurs, or -1.\<close>

definition rfind :: "char \<Rightarrow> string \<Rightarrow> nat \<Rightarrow> int" where
  "rfind c s n =
     (case filter (\<lambda>i. s ! i = c) (rev [0..<min n (length s)]) of
        [] \<Rightarrow> - 1
      | i # _ \<Rightarrow> int i)"

text \<open>
  \<^verbatim>\<open>_handle_long_word\<close> with \<^verbatim>\<open>break_long_words\<close>: the next chunk \<open>chunk\<close> is cut after
  \<open>space_left\<close> characters, or after its last hyphen before that when there is one with a
  non-hyphen before it. It is called with \<open>cur_len \<le> width\<close> only (see \<open>fit_chunks_le\<close>
  below), so the subtraction never goes below zero.
\<close>

definition handle_long_word ::
  "string \<Rightarrow> string list \<Rightarrow> string list \<Rightarrow> nat \<Rightarrow> nat \<Rightarrow> string list \<times> string list" where
  "handle_long_word chunk rest cur_line cur_len width =
     (let space_left = (if width < 1 then 1 else width - cur_len);
          hyphen = rfind CHR ''-'' chunk space_left;
          end_pos = (if length chunk > space_left \<and> hyphen > 0
                        \<and> (\<exists>c \<in> set (take (nat hyphen) chunk). c \<noteq> CHR ''-'')
                     then nat hyphen + 1 else space_left)
      in (cur_line @ [take end_pos chunk], drop end_pos chunk # rest))"

text \<open>One pass of the outer \<^verbatim>\<open>while\<close> loop of \<^verbatim>\<open>_wrap_chunks\<close>: one line is laid out.\<close>

definition wrap_step :: "nat \<Rightarrow> string list \<Rightarrow> string list \<Rightarrow> string list \<times> string list" where
  "wrap_step width lines chunks =
     (let chunks1 = (case chunks of
                       c # cs \<Rightarrow> if is_blank c \<and> lines \<noteq> [] then cs else chunks
                     | [] \<Rightarrow> chunks);
          (cur_line, cur_len, chunks2) = fit_chunks width [] 0 chunks1;
          (cur_line1, chunks3) =
             (case chunks2 of
                d # ds \<Rightarrow> if length d > width then handle_long_word d ds cur_line cur_len width
                          else (cur_line, chunks2)
              | [] \<Rightarrow> (cur_line, chunks2));
          cur_line2 = (if cur_line1 \<noteq> [] \<and> is_blank (last cur_line1) then butlast cur_line1
                       else cur_line1)
      in (if cur_line2 \<noteq> [] then lines @ [concat cur_line2] else lines, chunks3))"

text \<open>
  The loop ends: every pass takes a chunk from the stack or cuts at least one character
  off the next chunk.
\<close>

definition chunk_measure :: "string list \<Rightarrow> nat" where
  "chunk_measure chunks = sum_list (map (\<lambda>c. Suc (length c)) chunks)"

lemma fit_chunks_measure:
  "fit_chunks width cl n chunks = (cl', n', chunks') \<Longrightarrow>
     chunk_measure chunks' \<le> chunk_measure chunks"
  by (induction width cl n chunks rule: fit_chunks.induct)
     (auto simp: chunk_measure_def split: if_splits)

lemma fit_chunks_stuck:
  "fit_chunks width cl n chunks = (cl', n', chunks') \<Longrightarrow> chunks' \<noteq> [] \<Longrightarrow>
     chunk_measure chunks' = chunk_measure chunks \<Longrightarrow> n' = n"
  by (induction width cl n chunks rule: fit_chunks.induct)
     (auto simp: chunk_measure_def split: if_splits dest!: fit_chunks_measure)

lemma fit_chunks_hd:
  "fit_chunks width cl n chunks = (cl', n', d # ds) \<Longrightarrow> width < n' + length d"
  by (induction width cl n chunks rule: fit_chunks.induct) (auto split: if_splits)

lemma fit_chunks_le:
  "fit_chunks width cl n chunks = (cl', n', chunks') \<Longrightarrow> n \<le> width \<Longrightarrow> n' \<le> width"
  by (induction width cl n chunks rule: fit_chunks.induct) (auto split: if_splits)

lemma fit_chunks_len:
  "fit_chunks width cl n chunks = (cl', n', chunks') \<Longrightarrow> n = length (concat cl) \<Longrightarrow>
     n' = length (concat cl')"
  by (induction width cl n chunks rule: fit_chunks.induct) (auto split: if_splits)

lemma rfind_less: "rfind c s n < int n"
proof (cases "filter (\<lambda>i. s ! i = c) (rev [0..<min n (length s)])")
  case Nil
  then show ?thesis by (simp add: rfind_def)
next
  case (Cons i rest)
  then have "i \<in> set (filter (\<lambda>i. s ! i = c) (rev [0..<min n (length s)]))" by simp
  then have "i < n" by simp
  with Cons show ?thesis by (simp add: rfind_def)
qed

lemma handle_long_word_measure:
  assumes "handle_long_word d ds cur_line cur_len width = (cl', chunks')"
  shows "chunk_measure chunks' \<le> chunk_measure (d # ds)"
  using assms by (auto simp: handle_long_word_def chunk_measure_def Let_def)

lemma handle_long_word_progress:
  assumes "handle_long_word d ds cur_line 0 width = (cl', chunks')" "width < length d"
  shows "chunk_measure chunks' < chunk_measure (d # ds)"
proof -
  obtain end_pos where e: "chunks' = drop end_pos d # ds" and pos: "0 < end_pos"
    using assms(1) unfolding handle_long_word_def Let_def
    by (cases "width < 1") (auto split: if_splits)
  have "0 < length d" using assms(2) by arith
  with e pos show ?thesis by (simp add: chunk_measure_def)
qed

lemma wrap_step_decreases:
  assumes "chunks \<noteq> []"
  shows "chunk_measure (snd (wrap_step width lines chunks)) < chunk_measure chunks"
proof -
  define chunks1 where "chunks1 = (case chunks of
                       c # cs \<Rightarrow> if is_blank c \<and> lines \<noteq> [] then cs else chunks
                     | [] \<Rightarrow> chunks)"
  obtain cur_line cur_len chunks2
    where fit: "fit_chunks width [] 0 chunks1 = (cur_line, cur_len, chunks2)"
    by (cases "fit_chunks width [] 0 chunks1") auto
  define r where "r = (case chunks2 of
                d # ds \<Rightarrow> if length d > width then handle_long_word d ds cur_line cur_len width
                          else (cur_line, chunks2)
              | [] \<Rightarrow> (cur_line, chunks2))"
  have snd_eq: "snd (wrap_step width lines chunks) = snd r"
    by (simp add: wrap_step_def Let_def chunks1_def[symmetric] fit r_def[symmetric]
        split: prod.splits)
  have m1: "chunk_measure chunks1 \<le> chunk_measure chunks"
    by (auto simp: chunks1_def chunk_measure_def split: list.splits)
  have m2: "chunk_measure chunks2 \<le> chunk_measure chunks1"
    using fit by (rule fit_chunks_measure)
  have m3: "chunk_measure (snd r) \<le> chunk_measure chunks2"
    by (cases "handle_long_word (hd chunks2) (tl chunks2) cur_line cur_len width")
       (auto simp: r_def split: list.splits dest: handle_long_word_measure)
  show ?thesis
  proof (cases "chunk_measure chunks2 < chunk_measure chunks")
    case True
    with m3 show ?thesis by (simp add: snd_eq)
  next
    case False
    with m1 m2 have e1: "chunk_measure chunks1 = chunk_measure chunks"
      and e2: "chunk_measure chunks2 = chunk_measure chunks1" by simp_all
    from assms have "0 < chunk_measure chunks"
      by (cases chunks) (simp_all add: chunk_measure_def)
    with e1 e2 have ne2: "chunks2 \<noteq> []" by (auto simp: chunk_measure_def)
    then obtain d ds where c2: "chunks2 = d # ds" by (cases chunks2) auto
    from fit_chunks_stuck[OF fit ne2 e2] have len0: "cur_len = 0" by simp
    from fit_chunks_hd[OF fit[unfolded c2]] len0 have long: "width < length d" by simp
    obtain cl' chunks' where h: "handle_long_word d ds cur_line 0 width = (cl', chunks')"
      by (cases "handle_long_word d ds cur_line 0 width") auto
    from handle_long_word_progress[OF h long]
    have "chunk_measure chunks' < chunk_measure chunks2" by (simp add: c2)
    moreover have "snd r = chunks'" using long h by (simp add: r_def c2 len0)
    ultimately show ?thesis using e1 e2 by (simp add: snd_eq)
  qed
qed

function wrap_loop :: "nat \<Rightarrow> string list \<Rightarrow> string list \<Rightarrow> string list" where
  "wrap_loop width lines [] = lines"
| "wrap_loop width lines (c # cs) =
     (case wrap_step width lines (c # cs) of
        (lines', chunks') \<Rightarrow> wrap_loop width lines' chunks')"
  by pat_completeness auto
termination
proof (relation "measure (\<lambda>(width, lines, chunks). chunk_measure chunks)", goal_cases)
  case 1
  show ?case by simp
next
  case (2 width lines c cs lines' chunks')
  from 2 have "snd (wrap_step width lines (c # cs)) = chunks'"
    by (cases "wrap_step width lines (c # cs)") simp
  with wrap_step_decreases[of "c # cs" width lines] show ?case by simp
qed

definition wrap_chunks :: "int \<Rightarrow> string list \<Rightarrow> py_error + string list" where
  "wrap_chunks width chunks =
     (if width \<le> 0 then Inl ValueError else Inr (wrap_loop (nat width) [] chunks))"

text \<open>\<^verbatim>\<open>"\n".join(lines)\<close>\<close>

fun join_lines :: "string list \<Rightarrow> string" where
  "join_lines [] = []"
| "join_lines [l] = l"
| "join_lines (l # ls) = l @ CHR 0x0A # join_lines ls"

text \<open>
  \<^verbatim>\<open>TextWrapper(width=width).fill(text)\<close>, with \<open>split_chunks\<close> for
  \<^verbatim>\<open>TextWrapper._split_chunks\<close>.
\<close>

definition fill :: "(string \<Rightarrow> string list) \<Rightarrow> string \<Rightarrow> int \<Rightarrow> py_error + string" where
  "fill split_chunks text_arg width =
     (case wrap_chunks width (split_chunks text_arg) of
        Inl e \<Rightarrow> Inl e
      | Inr lines \<Rightarrow> Inr (join_lines lines))"

definition max_chars :: int where
  "max_chars = 30"

text \<open>The value of \<^verbatim>\<open>wrapped\<close> in \<^verbatim>\<open>create_text_overlay\<close>.\<close>

definition wrapped :: "(string \<Rightarrow> string list) \<Rightarrow> string \<Rightarrow> py_error + string" where
  "wrapped split_chunks text_arg = fill split_chunks text_arg max_chars"

text \<open>The lines of a string: \<^verbatim>\<open>s.split("\n")\<close>.\<close>

fun split_lines :: "string \<Rightarrow> string list" where
  "split_lines [] = [[]]"
| "split_lines (c # cs) =
     (if c = CHR 0x0A then [] # split_lines cs
      else (case split_lines cs of l # ls \<Rightarrow> (c # l) # ls | [] \<Rightarrow> [[c]]))"

text \<open>The characters of a string that are not whitespace.\<close>

definition non_space :: "string \<Rightarrow> string" where
  "non_space s = filter (\<lambda>c. \<not> py_isspace c) s"

section \<open>Composition pipeline\<close>

text \<open>
  \<^verbatim>\<open>min(duration, 60)\<close>: Python's \<^verbatim>\<open>min\<close> keeps its first argument unless the second
  is smaller; a comparison with NaN is false.
\<close>

fun float_lt :: "pyfloat \<Rightarrow> pyfloat \<Rightarrow> bool" where
  "float_lt NaN b = False"
| "float_lt a NaN = False"
| "float_lt (Finite x) (Finite y) = (x < y)"
| "float_lt (Finite x) PosInf = True"
| "float_lt (Finite x) NegInf = False"
| "float_lt NegInf (Finite y) = True"
| "float_lt NegInf PosInf = True"
| "float_lt NegInf NegInf = False"
| "float_lt PosInf b = False"

definition py_min :: "pyfloat \<Rightarrow> pyfloat \<Rightarrow> pyfloat" where
  "py_min a b = (if float_lt b a then b else a)"

text \<open>
  What one run of the pipeline gets from outside: the random draws, the result of
  \<^verbatim>\<open>get_video_duration_and_size\<close> (which never raises), whether the overlay image could be
  rendered and saved, whether ffmpeg exits with status 0, and the outcome of the two writes
  of the commit.
\<close>

record run_env =
  choice :: nat
  probe :: "int \<times> int \<times> pyfloat"
  overlay_ok :: bool
  overlay_id :: string
  output_id :: string
  ffmpeg_ok :: bool
  commit :: commit_env

text \<open>
  \<^verbatim>\<open>create_text_overlay\<close> draws the wrapped text (see \<open>wrapped\<close>) on a transparent
  image and saves it under a fresh name; font errors are caught inside, any other failure
  of the drawing or saving raises. It returns the path of the image.
\<close>

definition create_text_overlay :: "run_env \<Rightarrow> string \<Rightarrow> pyfloat \<Rightarrow> int \<times> int \<Rightarrow> py_error + string" where
  "create_text_overlay env text_arg duration video_size =
     (if overlay_ok env then Inr (''uploads/'' @ ''overlay_'' @ overlay_id env @ ''.png'')
      else Inl RenderError)"

text \<open>
  \<^verbatim>\<open>generate_video_internal\<close> returns \<^verbatim>\<open>(output_path, hook_text, output_filename)\<close> or
  raises. The cap \<^verbatim>\<open>60\<close> is an integer in the source; it is compared with the probed
  duration, a float, by value.
\<close>

definition generate_video_internal ::
  "run_env \<Rightarrow> string \<Rightarrow> string \<Rightarrow> world \<Rightarrow> (py_error + string \<times> string \<times> string) \<times> world" where
  "generate_video_internal env filepath emotion w =
     (let (all_hooks, w1) = load_hooks w
      in case select_hook all_hooks emotion (choice env) of
           Inl e \<Rightarrow> (Inl e, w1)
         | Inr selected_hook \<Rightarrow>
             (case hook_text selected_hook of
                None \<Rightarrow> (Inl KeyError, w1)
              | Some hook_text_v \<Rightarrow>
                  (let (wd, ht, duration) = probe env;
                       max_duration = py_min duration (Finite 60);
                       overlay_duration = max_duration
                   in case create_text_overlay env hook_text_v overlay_duration (wd, ht) of
                        Inl e \<Rightarrow> (Inl e, w1)
                      | Inr temp_overlay_path \<Rightarrow>
                          (let output_filename =
                                 ''hook_'' @ capitalize emotion @ ''_'' @ output_id env @ ''.mp4'';
                               output_path = ''generated_shorts/'' @ output_filename;
                               cmd = \<lparr>cmd_input = filepath, cmd_overlay = temp_overlay_path,
                                      cmd_scale = (wd, ht), cmd_t = max_duration,
                                      cmd_output = output_path\<rparr>;
                               w2 = w1\<lparr>printed := printed w1 @ [RunningFfmpeg cmd]\<rparr>
                           in if \<not> ffmpeg_ok env then (Inl CalledProcessError, w2)
                              else (Inr (output_path, hook_text_v, output_filename),
                                    mark_hook_as_used (commit env) selected_hook w2)))))"

text \<open>The ffmpeg commands among the printed lines: each is printed, then run.\<close>

fun ffmpeg_runs :: "event list \<Rightarrow> ffmpeg_cmd list" where
  "ffmpeg_runs [] = []"
| "ffmpeg_runs (RunningFfmpeg c # es) = c # ffmpeg_runs es"
| "ffmpeg_runs (e # es) = ffmpeg_runs es"

text \<open>The command \<open>generate_video_internal\<close> builds (its \<^verbatim>\<open>cmd\<close>).\<close>

definition ffmpeg_command :: "run_env \<Rightarrow> string \<Rightarrow> string \<Rightarrow> ffmpeg_cmd" where
  "ffmpeg_command env filepath emotion =
     \<lparr>cmd_input = filepath,
      cmd_overlay = ''uploads/'' @ ''overlay_'' @ overlay_id env @ ''.png'',
      cmd_scale = (fst (probe env), fst (snd (probe env))),
      cmd_t = py_min (snd (snd (probe env))) (Finite 60),
      cmd_output = ''generated_shorts/'' @ ''hook_'' @ capitalize emotion @ ''_'' @ output_id env @ ''.mp4''\<rparr>"

section \<open>Request handlers\<close>

record success_body =
  status :: string
  video_url :: string
  resp_hook_text :: string
  resp_emotion :: string

datatype response =
    Error400 string
  | Error500 py_error
  | Unhandled py_error
  | Success success_body

text \<open>
  A request to \<^verbatim>\<open>/upload-video\<close>: the file name of the part \<^verbatim>\<open>video\<close> if there is one,
  the form field \<^verbatim>\<open>emotion\<close> if there is one, whether saving the upload works, and the
  path it is saved under.
\<close>

record upload_request =
  req_video :: "string option"
  req_emotion :: "string option"
  req_save_ok :: bool
  req_path :: string

definition form_emotion :: "string option \<Rightarrow> string" where
  "form_emotion e = (case e of None \<Rightarrow> ''General'' | Some v \<Rightarrow> v)"

definition upload_video :: "run_env \<Rightarrow> upload_request \<Rightarrow> world \<Rightarrow> response \<times> world" where
  "upload_video env req w =
     (case req_video req of
        None \<Rightarrow> (Error400 ''No video file'', w)
      | Some file_name \<Rightarrow>
          (let emotion = form_emotion (req_emotion req)
           in if file_name = [] then (Error400 ''No selected file'', w)
              else if \<not> req_save_ok req then (Unhandled OSError, w)
              else (case generate_video_internal env (req_path req) emotion w of
                      (Inr (output_path, hook_text_v, file_name'), w') \<Rightarrow>
                        (Success \<lparr>status = ''success'', video_url = ''/download/'' @ file_name',
                                  resp_hook_text = hook_text_v,
                                  resp_emotion = capitalize emotion\<rparr>, w')
                    | (Inl e, w') \<Rightarrow>
                        (Error500 e, w'\<lparr>printed := printed w' @ [Traceback e]\<rparr>))))"

text \<open>One of the parts \<^verbatim>\<open>video1\<close>, \<^verbatim>\<open>video2\<close>, \<^verbatim>\<open>video3\<close> of a batch request.\<close>

record batch_item =
  item_filename :: string
  item_emotion :: "string option"
  item_save_ok :: bool
  item_path :: string
  item_env :: run_env

datatype batch_response =
    BatchError500 py_error
  | NoVideosProcessed
  | Archive "(string \<times> string) list"

fun batch_loop ::
  "(nat \<Rightarrow> batch_item option) \<Rightarrow> nat list \<Rightarrow> (string \<times> string) list \<Rightarrow> world
     \<Rightarrow> (py_error + (string \<times> string) list) \<times> world" where
  "batch_loop files [] generated_files w = (Inr generated_files, w)"
| "batch_loop files (i # rest) generated_files w =
     (case files i of
        None \<Rightarrow> batch_loop files rest generated_files w
      | Some item \<Rightarrow>
          if item_filename item = [] then batch_loop files rest generated_files w
          else if \<not> item_save_ok item then (Inl OSError, w)
          else (case generate_video_internal (item_env item) (item_path item)
                       (form_emotion (item_emotion item)) w of
                  (Inr (output_path, hook_text_v, out_name), w') \<Rightarrow>
                    batch_loop files rest (generated_files @ [(out_name, output_path)]) w'
                | (Inl e, w') \<Rightarrow>
                    batch_loop files rest generated_files
                      (w'\<lparr>printed := printed w' @ [ErrorBatchItem i e]\<rparr>)))"

definition batch_upload :: "(nat \<Rightarrow> batch_item option) \<Rightarrow> world \<Rightarrow> batch_response \<times> world" where
  "batch_upload files w =
     (case batch_loop files [1, 2, 3] [] w of
        (Inl e, w') \<Rightarrow> (BatchError500 e, w'\<lparr>printed := printed w' @ [Traceback e]\<rparr>)
      | (Inr generated_files, w') \<Rightarrow>
          if generated_files = [] then (NoVideosProcessed, w')
          else (Archive generated_files, w'))"

section \<open>The specification's normalization of emotion labels\<close>

text \<open>
  The specification compares emotion labels case-insensitively and trimmed. These
  definitions follow its words; the code compares with \<open>capitalize\<close> instead
  (see \<open>select_hook\<close>).
\<close>

definition strip :: "string \<Rightarrow> string" where
  "strip s = rev (dropWhile py_isspace (rev (dropWhile py_isspace s)))"

definition spec_normalize :: "string \<Rightarrow> string" where
  "spec_normalize s = map lower_char (strip s)"

definition spec_matches :: "hook \<Rightarrow> string \<Rightarrow> bool" where
  "spec_matches h e =
     (case hook_emotion h of None \<Rightarrow> False | Some t \<Rightarrow> spec_normalize t = spec_normalize e)"

text \<open>The number of records in the store, active and used together.\<close>

definition store_count :: "world \<Rightarrow> nat" where
  "store_count w =
     length (fst (load_hooks w))
       + (case fst (load_used_hooks w) of CList us \<Rightarrow> length us | _ \<Rightarrow> 0)"

section \<open>Example data\<close>

definition hook_shocked :: hook where
  "hook_shocked = \<lparr>hook_text = Some ''Wait, this exists?'', hook_emotion = Some ''Shocked'',
                    hook_used_at = None\<rparr>"

definition hook_urgent :: hook where
  "hook_urgent = \<lparr>hook_text = Some ''Do this now'', hook_emotion = Some ''Urgent'',
                   hook_used_at = None\<rparr>"

definition hook_life_hack :: hook where
  "hook_life_hack = \<lparr>hook_text = Some ''This iPhone hack feels illegal.'',
                      hook_emotion = Some ''Life Hack'', hook_used_at = None\<rparr>"

definition hook_dup :: hook where
  "hook_dup = \<lparr>hook_text = Some ''Wait, this exists?'', hook_emotion = Some ''Urgent'',
                hook_used_at = None\<rparr>"

definition ok_commit :: commit_env where
  "ok_commit = \<lparr>rand_used_at = ''a1b2c3d4'', write_hooks = WriteOk, write_used = WriteOk\<rparr>"

definition world_dup :: world where
  "world_dup = \<lparr>hooks_file = Parsed (CList [EDict hook_shocked, EDict hook_dup]),
                 used_hooks_file = Absent, printed = []\<rparr>"

definition env_ok :: run_env where
  "env_ok = \<lparr>choice = 0, probe = (1080, 1920, Finite 90), overlay_ok = True,
             overlay_id = ''0a0b0c0d'', output_id = ''01020304'', ffmpeg_ok = True,
             commit = ok_commit\<rparr>"

definition world_two :: world where
  "world_two = \<lparr>hooks_file = Parsed (CList [EDict hook_shocked, EDict hook_urgent]),
                 used_hooks_file = Absent, printed = []\<rparr>"

definition env_encoder_fails :: run_env where
  "env_encoder_fails = env_ok\<lparr>ffmpeg_ok := False\<rparr>"

definition env_write_fails :: run_env where
  "env_write_fails = env_ok\<lparr>commit := ok_commit\<lparr>write_hooks := OpenFails\<rparr>\<rparr>"


definition req_shocked :: upload_request where
  "req_shocked = \<lparr>req_video = Some ''clip.mov'', req_emotion = Some ''shocked'',
                  req_save_ok = True, req_path = ''uploads/upload_0f0e0d0c.mov''\<rparr>"



definition item_first :: batch_item where
  "item_first = \<lparr>item_filename = ''a.mov'', item_emotion = Some ''shocked'', item_save_ok = True,
                 item_path = ''uploads/batch_1_0000000a.mov'', item_env = env_ok\<rparr>"

definition item_second :: batch_item where
  "item_second = \<lparr>item_filename = ''b.mov'', item_emotion = Some ''urgent'', item_save_ok = True,
                  item_path = ''uploads/batch_2_0000000b.mov'', item_env = env_encoder_fails\<rparr>"

definition item_third :: batch_item where
  "item_third = \<lparr>item_filename = ''c.mov'', item_emotion = Some ''urgent'', item_save_ok = True,
                 item_path = ''uploads/batch_3_0000000c.mov'',
                 item_env = env_ok\<lparr>output_id := ''05060708''\<rparr>\<rparr>"

definition batch_one_fails :: "nat \<Rightarrow> batch_item option" where
  "batch_one_fails = [1 \<mapsto> item_first, 2 \<mapsto> item_second, 3 \<mapsto> item_third]"

definition batch_two_items :: "nat \<Rightarrow> batch_item option" where
  "batch_two_items = [1 \<mapsto> item_first, 3 \<mapsto> item_third]"

definition long_token :: string where
  "long_token = ''aaaaaaaaaaaaaaaaaaaaaaaaaaaaaaaaaaaaaaaa''"

definition single_chunk :: "string \<Rightarrow> string list" where
  "single_chunk t = [t]"

section \<open>Properties of the hook store\<close>

lemmas char_case_defs = upper_char_def lower_char_def lower_letters_def upper_letters_def

lemma load_hooks_files [simp]:
  "hooks_file (snd (load_hooks w)) = hooks_file w"
  "used_hooks_file (snd (load_hooks w)) = used_hooks_file w"
  by (auto simp: load_hooks_def split: sum.splits)

lemma load_used_hooks_files [simp]:
  "hooks_file (snd (load_used_hooks w)) = hooks_file w"
  "used_hooks_file (snd (load_used_hooks w)) = used_hooks_file w"
  by (auto simp: load_used_hooks_def split: sum.splits)

text \<open>
  Claim C8. \<open>load_hooks\<close> and \<open>load_used_hooks\<close> return a value for every state of
  their backing file; no exception reaches the caller. For a missing file, for a file that
  does not parse as JSON, and for a file holding a JSON scalar (which cannot be iterated),
  \<open>load_hooks\<close> returns the empty list. For a missing file \<open>load_used_hooks\<close> returns the
  empty list, and so it does for a file that does not parse. In general, whatever
  exception the body of either function raises, the function returns the empty list.
\<close>

theorem load_soft_fail:
  "fst (load_hooks (w\<lparr>hooks_file := Absent\<rparr>)) = []
   \<and> fst (load_hooks (w\<lparr>hooks_file := Malformed\<rparr>)) = []
   \<and> fst (load_hooks (w\<lparr>hooks_file := Parsed CScalar\<rparr>)) = []
   \<and> fst (load_used_hooks (w\<lparr>used_hooks_file := Absent\<rparr>)) = CList []
   \<and> fst (load_used_hooks (w\<lparr>used_hooks_file := Malformed\<rparr>)) = CList []
   \<and> fst (load_hooks w) = (case load_hooks_try (hooks_file w) of Inl e \<Rightarrow> [] | Inr hs \<Rightarrow> hs)
   \<and> fst (load_used_hooks w)
        = (case load_used_hooks_try (used_hooks_file w) of Inl e \<Rightarrow> CList [] | Inr c \<Rightarrow> c)"
  by (simp add: load_hooks_def load_used_hooks_def split: sum.splits)

lemma normalize_entries_dicts [simp]: "normalize_entries (map EDict hs) = hs"
  by (induction hs) auto

lemma remove_by_text_ok:
  "hook_text hook = Some t \<Longrightarrow> \<forall>h \<in> set hs. hook_text h \<noteq> None \<Longrightarrow>
     remove_by_text hs hook = Inr (filter (\<lambda>h. hook_text h \<noteq> Some t) hs)"
  by (induction hs) auto

lemma load_hooks_printed_indep [simp]:
  "fst (load_hooks (w\<lparr>printed := p\<rparr>)) = fst (load_hooks w)"
  "fst (load_used_hooks (w\<lparr>printed := p\<rparr>)) = fst (load_used_hooks w)"
  by (auto simp: load_hooks_def load_used_hooks_def split: sum.splits)

lemma load_after_load [simp]:
  "fst (load_used_hooks (snd (load_hooks w))) = fst (load_used_hooks w)"
  "fst (load_hooks (snd (load_used_hooks w))) = fst (load_hooks w)"
  by (auto simp: load_hooks_def load_used_hooks_def split: sum.splits)

lemma mark_hook_as_used_try_ok:
  assumes "write_hooks env = WriteOk" "write_used env = WriteOk"
    and "hook_text hook = Some t"
    and "\<forall>h \<in> set (fst (load_hooks w)). hook_text h \<noteq> None"
    and "fst (load_used_hooks w) = CList us"
  shows "mark_hook_as_used_try env hook w =
     (None, (snd (load_used_hooks (snd (load_hooks w))))
        \<lparr>hooks_file := Parsed (CList (map EDict
             (filter (\<lambda>h. hook_text h \<noteq> Some t) (fst (load_hooks w))))),
         used_hooks_file := Parsed (CList (EDict (hook\<lparr>hook_used_at := Some (rand_used_at env)\<rparr>) # us))\<rparr>)"
  using assms remove_by_text_ok[OF assms(3,4)]
  by (simp add: mark_hook_as_used_try_def split_beta Let_def)

lemma load_hooks_Parsed_list [simp]:
  "hooks_file w = Parsed (CList es) \<Longrightarrow> fst (load_hooks w) = normalize_entries es"
  by (simp add: load_hooks_def)

lemma load_used_hooks_Parsed [simp]:
  "used_hooks_file w = Parsed c \<Longrightarrow> fst (load_used_hooks w) = c"
  by (simp add: load_used_hooks_def)

text \<open>
  Claim C1, amended. When both writes succeed, the hook and every active record have a
  text, and the used file holds a list, \<open>mark_hook_as_used\<close> completes without an
  exception and afterwards: the active sequence is the previous one without every record
  whose text equals the hook's (all of them, not only the first), so no active record has
  the hook's text; the used sequence is the hook, stamped with the marker drawn for
  \<open>used_at\<close>, in front of the previous used sequence, where it occurs once unless the
  previous sequence already held an identical record; and when exactly one active record
  had the hook's text, the number of active and used records together is unchanged.
\<close>

theorem commit_moves_hook:
  assumes "write_hooks env = WriteOk" and "write_used env = WriteOk"
    and "hook_text hook = Some t"
    and "\<forall>h \<in> set (fst (load_hooks w)). hook_text h \<noteq> None"
    and "fst (load_used_hooks w) = CList us"
  shows "fst (mark_hook_as_used_try env hook w) = None
    \<and> fst (load_hooks (mark_hook_as_used env hook w))
        = filter (\<lambda>h. hook_text h \<noteq> Some t) (fst (load_hooks w))
    \<and> (\<forall>h \<in> set (fst (load_hooks (mark_hook_as_used env hook w))). hook_text h \<noteq> hook_text hook)
    \<and> fst (load_used_hooks (mark_hook_as_used env hook w))
        = CList (EDict (hook\<lparr>hook_used_at := Some (rand_used_at env)\<rparr>) # us)
    \<and> (EDict (hook\<lparr>hook_used_at := Some (rand_used_at env)\<rparr>) \<notin> set us \<longrightarrow>
         count_list (EDict (hook\<lparr>hook_used_at := Some (rand_used_at env)\<rparr>) # us)
           (EDict (hook\<lparr>hook_used_at := Some (rand_used_at env)\<rparr>)) = 1)
    \<and> (length (filter (\<lambda>h. hook_text h = Some t) (fst (load_hooks w))) = 1 \<longrightarrow>
         store_count (mark_hook_as_used env hook w) = store_count w)"
proof -
  let ?act = "fst (load_hooks w)"
  let ?w' = "mark_hook_as_used env hook w"
  note t = mark_hook_as_used_try_ok[OF assms]
  have w': "?w' = (snd (load_used_hooks (snd (load_hooks w))))
        \<lparr>hooks_file := Parsed (CList (map EDict (filter (\<lambda>h. hook_text h \<noteq> Some t) ?act))),
         used_hooks_file := Parsed (CList (EDict (hook\<lparr>hook_used_at := Some (rand_used_at env)\<rparr>) # us))\<rparr>"
    by (simp add: mark_hook_as_used_def t)
  have a: "fst (load_hooks ?w') = filter (\<lambda>h. hook_text h \<noteq> Some t) ?act"
    by (simp add: w')
  have u: "fst (load_used_hooks ?w')
        = CList (EDict (hook\<lparr>hook_used_at := Some (rand_used_at env)\<rparr>) # us)"
    by (simp add: w')
  have len: "length (filter (\<lambda>h. hook_text h = Some t) ?act)
       + length (filter (\<lambda>h. hook_text h \<noteq> Some t) ?act) = length ?act"
    by (rule sum_length_filter_compl)
  have cnt: "length (filter (\<lambda>h. hook_text h = Some t) ?act) = 1 \<longrightarrow>
         store_count ?w' = store_count w"
    using len by (simp add: store_count_def a u assms(5))
  have c1: "EDict (hook\<lparr>hook_used_at := Some (rand_used_at env)\<rparr>) \<notin> set us \<longrightarrow>
         count_list (EDict (hook\<lparr>hook_used_at := Some (rand_used_at env)\<rparr>) # us)
           (EDict (hook\<lparr>hook_used_at := Some (rand_used_at env)\<rparr>)) = 1"
    by (simp add: count_list_0_iff)
  have absent: "\<forall>h \<in> set (fst (load_hooks ?w')). hook_text h \<noteq> hook_text hook"
    by (simp add: a assms(3))
  from t a u cnt c1 absent show ?thesis by simp
qed

theorem commit_moves_hook_witness:
  "write_hooks ok_commit = WriteOk \<and> write_used ok_commit = WriteOk
   \<and> hook_text hook_shocked = Some ''Wait, this exists?''
   \<and> fst (load_hooks world_dup) = [hook_shocked, hook_dup]
   \<and> fst (load_used_hooks world_dup) = CList []
   \<and> fst (load_hooks (mark_hook_as_used ok_commit hook_shocked world_dup)) = []
   \<and> fst (load_used_hooks (mark_hook_as_used ok_commit hook_shocked world_dup))
       = CList [EDict (hook_shocked\<lparr>hook_used_at := Some ''a1b2c3d4''\<rparr>)]"
proof -
  have 1: "write_hooks ok_commit = WriteOk" and 2: "write_used ok_commit = WriteOk"
    by (simp_all add: ok_commit_def)
  have 3: "hook_text hook_shocked = Some ''Wait, this exists?''"
    by (simp add: hook_shocked_def)
  have l: "fst (load_hooks world_dup) = [hook_shocked, hook_dup]"
    by (simp add: world_dup_def)
  have 4: "\<forall>h \<in> set (fst (load_hooks world_dup)). hook_text h \<noteq> None"
    by (simp add: l hook_shocked_def hook_dup_def)
  have 5: "fst (load_used_hooks world_dup) = CList []"
    by (simp add: world_dup_def load_used_hooks_def)
  from commit_moves_hook [OF 1 2 3 4 5] 1 2 3 l 5 show ?thesis
    by (simp add: hook_shocked_def hook_dup_def ok_commit_def)
qed

text \<open>
  Claim C1, as the specification states it, fails when two active records share a text:
  the commit removes both, not only the first, and the store holds one record less.
\<close>

theorem commit_first_only_counterexample:
  "fst (load_hooks world_dup) = [hook_shocked, hook_dup]
   \<and> store_count world_dup = 2
   \<and> fst (load_hooks (mark_hook_as_used ok_commit hook_shocked world_dup)) = []
   \<and> store_count (mark_hook_as_used ok_commit hook_shocked world_dup) = 1"
  by (simp add: store_count_def mark_hook_as_used_def mark_hook_as_used_try_def world_dup_def
      load_hooks_def load_used_hooks_def hook_shocked_def hook_dup_def ok_commit_def)

section \<open>Properties of the selection\<close>

lemma random_choice_mem:
  "xs \<noteq> [] \<Longrightarrow> \<exists>x \<in> set xs. random_choice r xs = Inr x"
  by (simp add: random_choice_def)

text \<open>
  Claim C4. The selection fails exactly when the active pool is empty, and then with
  the error "No hooks found in database". When the pool is not empty and no record carries
  the requested emotion, the selection returns a record of the pool.
\<close>

theorem select_fallback_chain:
  "(select_hook pool emotion r = Inl NoHooksFound \<longleftrightarrow> pool = [])
   \<and> ((\<exists>e. select_hook pool emotion r = Inl e) \<longleftrightarrow> pool = [])
   \<and> (pool \<noteq> [] \<and> (\<forall>h \<in> set pool. hook_emotion h \<noteq> Some (capitalize emotion))
        \<longrightarrow> (\<exists>h \<in> set pool. select_hook pool emotion r = Inr h))"
proof -
  have a: "pool = [] \<Longrightarrow> select_hook pool emotion r = Inl NoHooksFound"
    by (simp add: select_hook_def)
  have b: "\<exists>h \<in> set pool. select_hook pool emotion r = Inr h" if ne: "pool \<noteq> []"
  proof (cases "filter (\<lambda>h. hook_emotion h = Some (capitalize emotion)) pool = []")
    case True
    with ne random_choice_mem[OF ne, of r] show ?thesis
      by (simp add: select_hook_def Let_def)
  next
    case False
    from random_choice_mem[OF False, of r] False show ?thesis
      by (auto simp: select_hook_def Let_def)
  qed
  from a b show ?thesis by (cases "pool = []") auto
qed

theorem select_fallback_chain_witness:
  "[hook_urgent] \<noteq> []
   \<and> hook_emotion hook_urgent \<noteq> Some (capitalize ''shocked'')
   \<and> (\<exists>h \<in> set [hook_urgent]. select_hook [hook_urgent] ''shocked'' 0 = Inr h)"
  using select_fallback_chain [of "[hook_urgent]" "''shocked''" 0]
  by (simp add: hook_urgent_def char_case_defs)

text \<open>
  Claim C3, as the specification states it, fails: the request \<open>'' shocked''\<close> (with a
  leading blank) matches the record tagged \<open>''Shocked''\<close> after trimming and folding case,
  yet the selection can return the record tagged \<open>''Urgent''\<close>, because the code compares
  the record's tag, as it is, with the capitalized request.
\<close>

theorem select_normalized_counterexample:
  "spec_matches hook_shocked '' shocked''
   \<and> select_hook [hook_shocked, hook_urgent] '' shocked'' 1 = Inr hook_urgent
   \<and> \<not> spec_matches hook_urgent '' shocked''"
  by (simp add: spec_matches_def spec_normalize_def strip_def py_isspace_def select_hook_def
      random_choice_def hook_shocked_def hook_urgent_def char_case_defs)

text \<open>
  The capitalized form of a label of two words is not the label: a request for
  \<open>''Life Hack''\<close> does not match the records tagged \<open>''Life Hack''\<close>, and the selection
  falls back to the whole pool.
\<close>

lemma select_life_hack_falls_back:
  "capitalize ''Life Hack'' = ''Life hack''
   \<and> select_hook [hook_life_hack, hook_urgent] ''Life Hack'' 1 = Inr hook_urgent"
  by (simp add: select_hook_def random_choice_def hook_life_hack_def hook_urgent_def
      char_case_defs)

text \<open>
  Claim C3, amended. When the active pool holds a record whose emotion tag equals the
  capitalized request (first character in upper case, the others in lower case, nothing
  trimmed), the selection returns a record of the pool with that tag.
\<close>

theorem select_exact_match:
  assumes "\<exists>h \<in> set pool. hook_emotion h = Some (capitalize emotion)"
  shows "\<exists>h \<in> set pool. select_hook pool emotion r = Inr h
           \<and> hook_emotion h = Some (capitalize emotion)"
proof -
  let ?c = "filter (\<lambda>h. hook_emotion h = Some (capitalize emotion)) pool"
  from assms have ne: "?c \<noteq> []" by (auto simp: filter_empty_conv)
  from random_choice_mem[OF ne, of r] obtain h where "h \<in> set ?c" "random_choice r ?c = Inr h"
    by blast
  with ne show ?thesis by (auto simp: select_hook_def Let_def)
qed

theorem select_exact_match_witness:
  "(\<exists>h \<in> set [hook_urgent, hook_shocked]. hook_emotion h = Some (capitalize ''sHOCKED''))
   \<and> (\<exists>h \<in> set [hook_urgent, hook_shocked].
         select_hook [hook_urgent, hook_shocked] ''sHOCKED'' 0 = Inr h
         \<and> hook_emotion h = Some (capitalize ''sHOCKED''))"
proof -
  have h: "\<exists>h \<in> set [hook_urgent, hook_shocked]. hook_emotion h = Some (capitalize ''sHOCKED'')"
    by (simp add: hook_shocked_def char_case_defs)
  from select_exact_match [OF h, of 0] h show ?thesis by blast
qed

section \<open>Properties of the text wrapping\<close>

lemma handle_long_word_len:
  assumes "handle_long_word d ds cur_line cur_len width = (cl', chunks')"
    and "1 \<le> width" and "cur_len \<le> width" and "length (concat cur_line) = cur_len"
  shows "length (concat cl') \<le> width"
proof -
  define space_left where "space_left = width - cur_len"
  obtain end_pos where cl: "cl' = cur_line @ [take end_pos d]" and le: "end_pos \<le> space_left"
    using assms(1,2) rfind_less[of "CHR ''-''" d space_left]
    unfolding handle_long_word_def Let_def space_left_def
    by (auto split: if_splits)
  from cl have "length (concat cl') \<le> cur_len + end_pos"
    using assms(4) by simp
  with le assms(3) show ?thesis by (simp add: space_left_def)
qed

lemma concat_butlast_le: "length (concat (butlast xs)) \<le> length (concat xs)"
  by (induction xs) auto

lemma wrap_step_lines:
  assumes "1 \<le> width" and "\<forall>l \<in> set lines. length l \<le> width"
  shows "\<forall>l \<in> set (fst (wrap_step width lines chunks)). length l \<le> width"
proof -
  define chunks1 where "chunks1 = (case chunks of
                       c # cs \<Rightarrow> if is_blank c \<and> lines \<noteq> [] then cs else chunks
                     | [] \<Rightarrow> chunks)"
  obtain cur_line cur_len chunks2
    where fit: "fit_chunks width [] 0 chunks1 = (cur_line, cur_len, chunks2)"
    by (cases "fit_chunks width [] 0 chunks1") auto
  define r where "r = (case chunks2 of
                d # ds \<Rightarrow> if length d > width then handle_long_word d ds cur_line cur_len width
                          else (cur_line, chunks2)
              | [] \<Rightarrow> (cur_line, chunks2))"
  define cur_line2 where "cur_line2 = (if fst r \<noteq> [] \<and> is_blank (last (fst r)) then butlast (fst r)
                       else fst r)"
  have fst_eq: "fst (wrap_step width lines chunks) =
      (if cur_line2 \<noteq> [] then lines @ [concat cur_line2] else lines)"
    by (simp add: wrap_step_def Let_def chunks1_def[symmetric] fit r_def[symmetric] cur_line2_def
        split: prod.splits)
  have le: "cur_len \<le> width" using fit_chunks_le[OF fit] by simp
  have len: "cur_len = length (concat cur_line)" using fit_chunks_len[OF fit] by simp
  have r_le: "length (concat (fst r)) \<le> width"
  proof (cases chunks2)
    case Nil
    then show ?thesis using le len by (simp add: r_def)
  next
    case (Cons d ds)
    show ?thesis
    proof (cases "length d > width")
      case True
      obtain cl' chunks' where h: "handle_long_word d ds cur_line cur_len width = (cl', chunks')"
        by (cases "handle_long_word d ds cur_line cur_len width") auto
      from handle_long_word_len[OF h assms(1) le len[symmetric]] True h Cons
      show ?thesis by (simp add: r_def)
    next
      case False
      then show ?thesis using le len Cons by (simp add: r_def)
    qed
  qed
  have "length (concat cur_line2) \<le> length (concat (fst r))"
    by (simp add: cur_line2_def concat_butlast_le)
  with r_le have "length (concat cur_line2) \<le> width" by simp
  with assms(2) show ?thesis by (simp add: fst_eq)
qed

lemma wrap_loop_lines:
  "1 \<le> width \<Longrightarrow> \<forall>l \<in> set lines. length l \<le> width \<Longrightarrow>
     \<forall>l \<in> set (wrap_loop width lines chunks). length l \<le> width"
proof (induction width lines chunks rule: wrap_loop.induct)
  case (1 width lines)
  then show ?case by simp
next
  case (2 width lines c cs)
  obtain lines' chunks' where st: "wrap_step width lines (c # cs) = (lines', chunks')"
    by (cases "wrap_step width lines (c # cs)") auto
  from wrap_step_lines[OF 2(2) 2(3), of "c # cs"] st
  have "\<forall>l \<in> set lines'. length l \<le> width" by simp
  from 2(1)[OF st[symmetric] 2(2) this] st
  show ?case by simp
qed

lemma split_lines_nonempty [simp]: "split_lines s \<noteq> []"
  by (induction s) (auto split: list.splits)

lemma split_lines_append_nl:
  "split_lines (a @ CHR 0x0A # b) = split_lines a @ split_lines b"
  by (induction a) (auto split: list.splits)

lemma split_lines_len: "\<forall>l \<in> set (split_lines s). length l \<le> length s"
  by (induction s) (auto split: list.splits simp: le_Suc_eq)

lemma split_join_lines:
  "\<forall>l \<in> set ls. length l \<le> n \<Longrightarrow> \<forall>p \<in> set (split_lines (join_lines ls)). length p \<le> n"
proof (induction ls rule: join_lines.induct)
  case 1
  then show ?case by simp
next
  case (2 l)
  then show ?case using split_lines_len[of l] by fastforce
next
  case (3 l v va)
  then show ?case using split_lines_len[of l] by (fastforce simp: split_lines_append_nl)
qed

lemma non_space_Nil [simp]: "non_space [] = []"
  by (simp add: non_space_def)

lemma non_space_append [simp]: "non_space (a @ b) = non_space a @ non_space b"
  by (simp add: non_space_def)

lemma non_space_blank: "is_blank c \<Longrightarrow> non_space c = []"
  by (simp add: non_space_def is_blank_def list_all_iff)

lemma fit_chunks_concat:
  "fit_chunks width cl n chunks = (cl', n', chunks') \<Longrightarrow>
     concat cl' @ concat chunks' = concat cl @ concat chunks"
  by (induction width cl n chunks rule: fit_chunks.induct) (auto split: if_splits)

lemma handle_long_word_concat:
  "handle_long_word d ds cl n width = (cl', chunks') \<Longrightarrow>
     concat cl' @ concat chunks' = concat cl @ concat (d # ds)"
  by (auto simp: handle_long_word_def Let_def)

lemma non_space_butlast:
  "xs \<noteq> [] \<Longrightarrow> is_blank (last xs) \<Longrightarrow> non_space (concat (butlast xs)) = non_space (concat xs)"
proof -
  assume "xs \<noteq> []" and b: "is_blank (last xs)"
  then have "xs = butlast xs @ [last xs]" by simp
  then have "concat xs = concat (butlast xs) @ last xs"
    by (metis concat.simps(1,2) concat_append append_Nil2)
  then show ?thesis using non_space_blank[OF b] by simp
qed

lemma wrap_step_text:
  "non_space (concat (fst (wrap_step width lines chunks)))
      @ non_space (concat (snd (wrap_step width lines chunks)))
   = non_space (concat lines) @ non_space (concat chunks)"
proof -
  define chunks1 where "chunks1 = (case chunks of
                       c # cs \<Rightarrow> if is_blank c \<and> lines \<noteq> [] then cs else chunks
                     | [] \<Rightarrow> chunks)"
  obtain cur_line cur_len chunks2
    where fit: "fit_chunks width [] 0 chunks1 = (cur_line, cur_len, chunks2)"
    by (cases "fit_chunks width [] 0 chunks1") auto
  define r where "r = (case chunks2 of
                d # ds \<Rightarrow> if length d > width then handle_long_word d ds cur_line cur_len width
                          else (cur_line, chunks2)
              | [] \<Rightarrow> (cur_line, chunks2))"
  define cur_line2 where "cur_line2 = (if fst r \<noteq> [] \<and> is_blank (last (fst r)) then butlast (fst r)
                       else fst r)"
  have fst_eq: "fst (wrap_step width lines chunks) =
      (if cur_line2 \<noteq> [] then lines @ [concat cur_line2] else lines)"
    by (simp add: wrap_step_def Let_def chunks1_def[symmetric] fit r_def[symmetric] cur_line2_def
        split: prod.splits)
  have snd_eq: "snd (wrap_step width lines chunks) = snd r"
    by (simp add: wrap_step_def Let_def chunks1_def[symmetric] fit r_def[symmetric]
        split: prod.splits)
  have c1: "non_space (concat chunks1) = non_space (concat chunks)"
    by (auto simp: chunks1_def non_space_blank split: list.splits)
  have c2: "concat cur_line @ concat chunks2 = concat chunks1"
    using fit_chunks_concat[OF fit] by simp
  have c3: "concat (fst r) @ concat (snd r) = concat cur_line @ concat chunks2"
  proof (cases chunks2)
    case Nil
    then show ?thesis by (simp add: r_def)
  next
    case (Cons d ds)
    obtain cl' chunks' where h: "handle_long_word d ds cur_line cur_len width = (cl', chunks')"
      by (cases "handle_long_word d ds cur_line cur_len width") auto
    from handle_long_word_concat[OF h] h Cons show ?thesis by (simp add: r_def)
  qed
  have c4: "non_space (concat cur_line2) = non_space (concat (fst r))"
    by (simp add: cur_line2_def non_space_butlast)
  have c5: "non_space (concat (fst (wrap_step width lines chunks)))
      = non_space (concat lines) @ non_space (concat cur_line2)"
    by (simp add: fst_eq)
  have "non_space (concat (fst r)) @ non_space (concat (snd r)) = non_space (concat chunks)"
    using c1 c2 c3 by (metis non_space_append)
  then show ?thesis by (simp add: c5 c4 snd_eq)
qed

lemma wrap_loop_text:
  "non_space (concat (wrap_loop width lines chunks))
     = non_space (concat lines) @ non_space (concat chunks)"
proof (induction width lines chunks rule: wrap_loop.induct)
  case (1 width lines)
  then show ?case by simp
next
  case (2 width lines c cs)
  obtain lines' chunks' where st: "wrap_step width lines (c # cs) = (lines', chunks')"
    by (cases "wrap_step width lines (c # cs)") auto
  from wrap_step_text[of width lines "c # cs"] st
  have "non_space (concat lines') @ non_space (concat chunks')
      = non_space (concat lines) @ non_space (concat (c # cs))" by simp
  with 2[OF st[symmetric]] st show ?case by simp
qed

text \<open>Two runs of the layout; CPython 3.11 gives the same lines.\<close>

lemma wrap_hyphenated:
  "wrap_chunks 10 [''hello'', '' '', ''world'', '' '', ''this'', '' '', ''is'', ''  '',
                   ''a-very-long-hyphenated-thing'', '' '', ''x'']
     = Inr [''hello'', ''world this'', ''is  a-'', ''very-long-'', ''hyphenated'', ''-thing x'']"
  by code_simp

lemma wrap_long_token:
  "wrap_chunks max_chars [long_token] =
     Inr [''aaaaaaaaaaaaaaaaaaaaaaaaaaaaaa'', ''aaaaaaaaaa'']"
  by code_simp

text \<open>
  Claim C7, amended. For every text and every way of splitting it into chunks, the
  wrapping succeeds, no line of the wrapped text is longer than 30 characters, with no
  exception for long tokens (a chunk longer than the width is broken across lines), and
  nothing but whitespace is dropped: the non-whitespace characters of the lines are
  those of the chunks, in order.
\<close>

theorem wrapped_lines_bounded:
  "\<exists>ls. wrap_chunks max_chars (split_chunks t) = Inr ls
      \<and> wrapped split_chunks t = Inr (join_lines ls)
      \<and> (\<forall>l \<in> set ls. length l \<le> 30)
      \<and> (\<forall>p \<in> set (split_lines (join_lines ls)). length p \<le> 30)
      \<and> non_space (concat ls) = non_space (concat (split_chunks t))"
proof -
  let ?ls = "wrap_loop 30 [] (split_chunks t)"
  have w: "wrap_chunks max_chars (split_chunks t) = Inr ?ls"
    by (simp add: wrap_chunks_def max_chars_def)
  have b: "\<forall>l \<in> set ?ls. length l \<le> 30"
    by (rule wrap_loop_lines) simp_all
  have "wrapped split_chunks t = Inr (join_lines ?ls)"
    by (simp add: wrapped_def fill_def w)
  moreover have "\<forall>p \<in> set (split_lines (join_lines ?ls)). length p \<le> 30"
    using b by (rule split_join_lines)
  moreover have "non_space (concat ?ls) = non_space (concat (split_chunks t))"
    by (simp add: wrap_loop_text)
  ultimately show ?thesis using w b by blast
qed

theorem wrapped_lines_bounded_witness:
  "wrap_chunks max_chars (single_chunk long_token) =
     Inr [''aaaaaaaaaaaaaaaaaaaaaaaaaaaaaa'', ''aaaaaaaaaa'']
   \<and> wrapped single_chunk long_token =
     Inr (join_lines [''aaaaaaaaaaaaaaaaaaaaaaaaaaaaaa'', ''aaaaaaaaaa''])
   \<and> length ''aaaaaaaaaaaaaaaaaaaaaaaaaaaaaa'' \<le> 30 \<and> length ''aaaaaaaaaa'' \<le> 30"
  using wrapped_lines_bounded [of single_chunk long_token] wrap_long_token
  by (auto simp: single_chunk_def)

text \<open>
  Claim C7, as the specification states it, fails: a single token of 40 characters is
  not emitted verbatim on a line of its own, it is broken into a line of 30 and a line of
  10 characters.
\<close>

theorem long_token_split_counterexample:
  "length long_token = 40
   \<and> wrap_chunks max_chars [long_token] =
       Inr [''aaaaaaaaaaaaaaaaaaaaaaaaaaaaaa'', ''aaaaaaaaaa'']
   \<and> long_token \<notin> set [''aaaaaaaaaaaaaaaaaaaaaaaaaaaaaa'', ''aaaaaaaaaa'']"
  using wrap_long_token by (simp add: long_token_def)

section \<open>Properties of the composition pipeline\<close>

lemma ffmpeg_runs_append [simp]: "ffmpeg_runs (xs @ ys) = ffmpeg_runs xs @ ffmpeg_runs ys"
  by (induction xs rule: ffmpeg_runs.induct) auto

lemma load_hooks_snd: "snd (load_hooks w) = w\<lparr>printed := printed (snd (load_hooks w))\<rparr>"
  by (auto simp: load_hooks_def split: sum.splits)

lemma load_hooks_runs [simp]:
  "ffmpeg_runs (printed (snd (load_hooks w))) = ffmpeg_runs (printed w)"
  "ffmpeg_runs (printed (snd (load_used_hooks w))) = ffmpeg_runs (printed w)"
  by (auto simp: load_hooks_def load_used_hooks_def split: sum.splits)

lemma mark_hook_as_used_try_printed:
  "printed (snd (mark_hook_as_used_try cenv h w))
     = printed (snd (load_used_hooks (snd (load_hooks w))))"
proof -
  obtain hs w1 where l: "load_hooks w = (hs, w1)" by (cases "load_hooks w") auto
  obtain u w2 where lu: "load_used_hooks w1 = (u, w2)" by (cases "load_used_hooks w1") auto
  show ?thesis
  proof (cases "remove_by_text hs h")
    case (Inl e)
    then show ?thesis by (simp add: mark_hook_as_used_try_def l lu)
  next
    case (Inr act)
    show ?thesis
    proof (cases u)
      case (CList us)
      obtain e1 f1 where w1: "write_file (write_hooks cenv) (CList (map EDict act)) (hooks_file w2) = (e1, f1)"
        by (cases "write_file (write_hooks cenv) (CList (map EDict act)) (hooks_file w2)") auto
      obtain e2 f2 where w2: "write_file (write_used cenv)
          (CList (EDict (h\<lparr>hook_used_at := Some (rand_used_at cenv)\<rparr>) # us)) (used_hooks_file w2) = (e2, f2)"
        by (cases "write_file (write_used cenv)
          (CList (EDict (h\<lparr>hook_used_at := Some (rand_used_at cenv)\<rparr>) # us)) (used_hooks_file w2)") auto
      show ?thesis
        by (cases e1) (simp_all add: mark_hook_as_used_try_def l lu Inr CList w1 w2 Let_def)
    qed (simp_all add: mark_hook_as_used_try_def l lu Inr)
  qed
qed

lemma mark_hook_as_used_runs [simp]:
  "ffmpeg_runs (printed (mark_hook_as_used cenv h w)) = ffmpeg_runs (printed w)"
proof (cases "mark_hook_as_used_try cenv h w")
  case (Pair e w')
  with mark_hook_as_used_try_printed[of cenv h w]
  have "ffmpeg_runs (printed w') = ffmpeg_runs (printed w)" by simp
  with Pair show ?thesis by (cases e) (simp_all add: mark_hook_as_used_def)
qed

lemma mark_hook_as_used_logs:
  "fst (mark_hook_as_used_try cenv h w) = Some e \<Longrightarrow>
     ErrorMarkingHook e \<in> set (printed (mark_hook_as_used cenv h w))"
  by (cases "mark_hook_as_used_try cenv h w") (simp add: mark_hook_as_used_def)

lemma mark_hook_as_used_try_printed_indep:
  "fst (mark_hook_as_used_try cenv h (w\<lparr>printed := p\<rparr>)) = fst (mark_hook_as_used_try cenv h w)"
proof -
  have a: "fst (load_hooks (w\<lparr>printed := p\<rparr>)) = fst (load_hooks w)" by simp
  have b: "fst (load_used_hooks (snd (load_hooks (w\<lparr>printed := p\<rparr>)))) = fst (load_used_hooks (snd (load_hooks w)))"
    by simp
  have c: "hooks_file (snd (load_used_hooks (snd (load_hooks (w\<lparr>printed := p\<rparr>))))) = hooks_file (snd (load_used_hooks (snd (load_hooks w))))"
    "used_hooks_file (snd (load_used_hooks (snd (load_hooks (w\<lparr>printed := p\<rparr>))))) = used_hooks_file (snd (load_used_hooks (snd (load_hooks w))))"
    by simp_all
  show ?thesis
    unfolding mark_hook_as_used_try_def split_beta Let_def a b c
    by (auto split: sum.splits content.splits option.splits prod.splits)
qed

lemma generate_video_internal_reached:
  assumes "select_hook (fst (load_hooks w)) emotion (choice env) = Inr h"
    and "hook_text h = Some t" and "overlay_ok env"
  shows "generate_video_internal env filepath emotion w =
     (if \<not> ffmpeg_ok env
      then (Inl CalledProcessError,
            (snd (load_hooks w))\<lparr>printed := printed (snd (load_hooks w))
                @ [RunningFfmpeg (ffmpeg_command env filepath emotion)]\<rparr>)
      else (Inr (''generated_shorts/'' @ ''hook_'' @ capitalize emotion @ ''_'' @ output_id env @ ''.mp4'', t,
                 ''hook_'' @ capitalize emotion @ ''_'' @ output_id env @ ''.mp4''),
            mark_hook_as_used (commit env) h
              ((snd (load_hooks w))\<lparr>printed := printed (snd (load_hooks w))
                @ [RunningFfmpeg (ffmpeg_command env filepath emotion)]\<rparr>)))"
  using assms
  by (simp add: generate_video_internal_def split_beta Let_def create_text_overlay_def
      ffmpeg_command_def)

lemma generate_video_internal_error_store:
  assumes "fst (generate_video_internal env filepath emotion w) = Inl e"
  shows "hooks_file (snd (generate_video_internal env filepath emotion w)) = hooks_file w
       \<and> used_hooks_file (snd (generate_video_internal env filepath emotion w)) = used_hooks_file w"
  using assms
  by (auto simp: generate_video_internal_def split_beta Let_def create_text_overlay_def
      split: sum.splits option.splits if_splits)

lemma generate_video_internal_encoder_fails:
  assumes "\<not> ffmpeg_ok env"
  shows "\<exists>e. fst (generate_video_internal env filepath emotion w) = Inl e"
  using assms
  by (auto simp: generate_video_internal_def split_beta Let_def create_text_overlay_def
      split: sum.splits option.splits if_splits)

lemma select_world_two:
  "select_hook (fst (load_hooks world_two)) ''shocked'' (choice env_ok) = Inr hook_shocked"
  by (simp add: world_two_def select_hook_def char_case_defs hook_shocked_def hook_urgent_def
      random_choice_def env_ok_def Let_def)

text \<open>
  Claim C2. When ffmpeg exits with a non-zero status, \<open>generate_video_internal\<close> raises,
  and whenever it raises, both files of the hook store are as they were: the selected
  hook is still active and the used sequence is not touched. So the store changes only in
  a run that composed its video.
\<close>

theorem encoder_failure_keeps_store:
  "(\<not> ffmpeg_ok env \<longrightarrow> (\<exists>e. fst (generate_video_internal env filepath emotion w) = Inl e))
   \<and> ((\<exists>e. fst (generate_video_internal env filepath emotion w) = Inl e) \<longrightarrow>
        hooks_file (snd (generate_video_internal env filepath emotion w)) = hooks_file w
        \<and> used_hooks_file (snd (generate_video_internal env filepath emotion w)) = used_hooks_file w)"
  using generate_video_internal_encoder_fails[of env filepath emotion w]
    generate_video_internal_error_store[of env filepath emotion w]
  by blast

theorem encoder_failure_keeps_store_witness:
  "\<not> ffmpeg_ok env_encoder_fails
   \<and> fst (generate_video_internal env_encoder_fails ''uploads/upload_0f0e0d0c.mov'' ''shocked'' world_two)
       = Inl CalledProcessError
   \<and> hooks_file (snd (generate_video_internal env_encoder_fails ''uploads/upload_0f0e0d0c.mov''
         ''shocked'' world_two)) = Parsed (CList [EDict hook_shocked, EDict hook_urgent])
   \<and> used_hooks_file (snd (generate_video_internal env_encoder_fails ''uploads/upload_0f0e0d0c.mov''
         ''shocked'' world_two)) = Absent"
proof -
  have f: "\<not> ffmpeg_ok env_encoder_fails" by (simp add: env_encoder_fails_def)
  have s: "select_hook (fst (load_hooks world_two)) ''shocked'' (choice env_encoder_fails)
      = Inr hook_shocked"
    using select_world_two by (simp add: env_encoder_fails_def env_ok_def)
  have r: "fst (generate_video_internal env_encoder_fails ''uploads/upload_0f0e0d0c.mov''
      ''shocked'' world_two) = Inl CalledProcessError"
    using generate_video_internal_reached[OF s, of "''Wait, this exists?''" "''uploads/upload_0f0e0d0c.mov''"]
    by (simp add: hook_shocked_def env_encoder_fails_def env_ok_def)
  from encoder_failure_keeps_store[of env_encoder_fails "''uploads/upload_0f0e0d0c.mov''"
      "''shocked''" world_two] f r
  show ?thesis by (simp add: world_two_def)
qed

text \<open>
  Claim C5. In a run that reaches the encoder (a hook with a text was selected and the
  overlay was rendered) for a video of probed duration \<open>D\<close>, exactly one ffmpeg command
  is run, and its \<^verbatim>\<open>-t\<close> argument is \<open>min D 60\<close>; for 45 that is 45, for 90 it is 60.
\<close>

theorem render_duration_capped:
  assumes "select_hook (fst (load_hooks w)) emotion (choice env) = Inr h"
    and "hook_text h = Some t" and "overlay_ok env"
    and "probe env = (wd, ht, Finite D)"
  shows "(\<exists>c. ffmpeg_runs (printed (snd (generate_video_internal env filepath emotion w)))
               = ffmpeg_runs (printed w) @ [c]
            \<and> cmd_t c = Finite (min D 60))
    \<and> py_min (Finite 45) (Finite 60) = Finite 45
    \<and> py_min (Finite 90) (Finite 60) = Finite 60"
proof -
  have m: "py_min (Finite D) (Finite 60) = Finite (min D 60)"
    by (simp add: py_min_def min_def)
  have "ffmpeg_runs (printed (snd (generate_video_internal env filepath emotion w)))
      = ffmpeg_runs (printed w) @ [ffmpeg_command env filepath emotion]"
    by (simp add: generate_video_internal_reached[OF assms(1-3)])
  moreover have "cmd_t (ffmpeg_command env filepath emotion) = Finite (min D 60)"
    by (simp add: ffmpeg_command_def assms(4) m)
  ultimately show ?thesis by (simp add: py_min_def)
qed

theorem render_duration_capped_witness:
  "select_hook (fst (load_hooks world_two)) ''shocked'' (choice env_ok) = Inr hook_shocked
   \<and> hook_text hook_shocked = Some ''Wait, this exists?'' \<and> overlay_ok env_ok
   \<and> probe env_ok = (1080, 1920, Finite 90)
   \<and> (\<exists>c. ffmpeg_runs (printed (snd (generate_video_internal env_ok
                ''uploads/upload_0f0e0d0c.mov'' ''shocked'' world_two))) = [c]
           \<and> cmd_t c = Finite 60)"
proof -
  have 2: "hook_text hook_shocked = Some ''Wait, this exists?''" by (simp add: hook_shocked_def)
  have 3: "overlay_ok env_ok" by (simp add: env_ok_def)
  have 4: "probe env_ok = (1080, 1920, Finite 90)" by (simp add: env_ok_def)
  have 5: "printed world_two = []" by (simp add: world_two_def)
  from render_duration_capped [OF select_world_two 2 3 4, of "''uploads/upload_0f0e0d0c.mov''"]
    select_world_two 2 3 4 5
  show ?thesis by simp
qed

section \<open>Properties of the request handlers\<close>

lemma upload_video_reached:
  assumes "req_video req = Some file_name" and "file_name \<noteq> []" and "req_save_ok req"
    and "select_hook (fst (load_hooks w)) (form_emotion (req_emotion req)) (choice env) = Inr h"
    and "hook_text h = Some t" and "overlay_ok env" and "ffmpeg_ok env"
  shows "upload_video env req w =
     (Success \<lparr>status = ''success'',
               video_url = ''/download/'' @ ''hook_'' @ capitalize (form_emotion (req_emotion req))
                  @ ''_'' @ output_id env @ ''.mp4'',
               resp_hook_text = t,
               resp_emotion = capitalize (form_emotion (req_emotion req))\<rparr>,
      mark_hook_as_used (commit env) h
        ((snd (load_hooks w))\<lparr>printed := printed (snd (load_hooks w))
           @ [RunningFfmpeg (ffmpeg_command env (req_path req) (form_emotion (req_emotion req)))]\<rparr>))"
  using assms(1,2,3,7)
  by (simp add: upload_video_def Let_def generate_video_internal_reached[OF assms(4,5,6)])

text \<open>
  Claim C9. In a request whose video was composed (the upload was saved, a hook with a
  text was selected, the overlay was rendered and ffmpeg succeeded), the response is the
  success response with the produced video, whatever the commit does; and an exception
  inside the commit is printed.
\<close>

theorem commit_failure_absorbed:
  assumes "req_video req = Some file_name" and "file_name \<noteq> []" and "req_save_ok req"
    and "select_hook (fst (load_hooks w)) (form_emotion (req_emotion req)) (choice env) = Inr h"
    and "hook_text h = Some t" and "overlay_ok env" and "ffmpeg_ok env"
  shows "fst (upload_video env req w) =
       Success \<lparr>status = ''success'',
                video_url = ''/download/'' @ ''hook_'' @ capitalize (form_emotion (req_emotion req))
                   @ ''_'' @ output_id env @ ''.mp4'',
                resp_hook_text = t,
                resp_emotion = capitalize (form_emotion (req_emotion req))\<rparr>
     \<and> (\<forall>e. fst (mark_hook_as_used_try (commit env) h w) = Some e \<longrightarrow>
            ErrorMarkingHook e \<in> set (printed (snd (upload_video env req w))))"
proof -
  let ?p = "printed (snd (load_hooks w))
           @ [RunningFfmpeg (ffmpeg_command env (req_path req) (form_emotion (req_emotion req)))]"
  note u = upload_video_reached[OF assms]
  have w2: "(snd (load_hooks w))\<lparr>printed := ?p\<rparr> = w\<lparr>printed := ?p\<rparr>"
    by (subst load_hooks_snd) simp
  have "ErrorMarkingHook e \<in> set (printed (snd (upload_video env req w)))"
    if "fst (mark_hook_as_used_try (commit env) h w) = Some e" for e
  proof -
    from that have "fst (mark_hook_as_used_try (commit env) h (w\<lparr>printed := ?p\<rparr>)) = Some e"
      by (simp add: mark_hook_as_used_try_printed_indep)
    from mark_hook_as_used_logs[OF this] show ?thesis by (simp add: u w2)
  qed
  with u show ?thesis by simp
qed

lemma commit_write_fails:
  "fst (mark_hook_as_used_try (commit env_write_fails) hook_shocked world_two) = Some OSError"
  by (simp add: mark_hook_as_used_try_def env_write_fails_def env_ok_def ok_commit_def
      world_two_def load_hooks_def load_used_hooks_def hook_shocked_def hook_urgent_def)

theorem commit_failure_absorbed_witness:
  "req_video req_shocked = Some ''clip.mov'' \<and> req_save_ok req_shocked
   \<and> select_hook (fst (load_hooks world_two)) (form_emotion (req_emotion req_shocked))
        (choice env_write_fails) = Inr hook_shocked
   \<and> hook_text hook_shocked = Some ''Wait, this exists?''
   \<and> overlay_ok env_write_fails \<and> ffmpeg_ok env_write_fails
   \<and> fst (mark_hook_as_used_try (commit env_write_fails) hook_shocked world_two) = Some OSError
   \<and> fst (upload_video env_write_fails req_shocked world_two) =
       Success \<lparr>status = ''success'', video_url = ''/download/hook_Shocked_01020304.mp4'',
                resp_hook_text = ''Wait, this exists?'', resp_emotion = ''Shocked''\<rparr>
   \<and> ErrorMarkingHook OSError \<in> set (printed (snd (upload_video env_write_fails req_shocked world_two)))"
proof -
  have 1: "req_video req_shocked = Some ''clip.mov''" and 2: "''clip.mov'' \<noteq> []"
    and 3: "req_save_ok req_shocked"
    by (simp_all add: req_shocked_def)
  have 4: "select_hook (fst (load_hooks world_two)) (form_emotion (req_emotion req_shocked))
        (choice env_write_fails) = Inr hook_shocked"
    using select_world_two by (simp add: req_shocked_def form_emotion_def env_write_fails_def env_ok_def)
  have 5: "hook_text hook_shocked = Some ''Wait, this exists?''" by (simp add: hook_shocked_def)
  have 6: "overlay_ok env_write_fails" and 7: "ffmpeg_ok env_write_fails"
    by (simp_all add: env_write_fails_def env_ok_def)
  have c: "capitalize (form_emotion (req_emotion req_shocked)) = ''Shocked''"
    by (simp add: req_shocked_def form_emotion_def char_case_defs)
  have o: "output_id env_write_fails = ''01020304''"
    by (simp add: env_write_fails_def env_ok_def)
  from commit_failure_absorbed [OF 1 2 3 4 5 6 7] commit_write_fails 1 3 4 5 6 7
  show ?thesis by (simp add: c o)
qed






text \<open>
  Claim C6, amended. In a batch of three saved uploads where the pipeline fails for the
  second only, the third is still processed, and the response is the archive holding the
  outputs of the first and the third, in that order. The response carries no failure
  count: the failure is printed on the server only.
\<close>

theorem batch_isolates_failure:
  assumes "files 1 = Some i1" and "files 2 = Some i2" and "files 3 = Some i3"
    and "item_filename i1 \<noteq> []" and "item_filename i2 \<noteq> []" and "item_filename i3 \<noteq> []"
    and "item_save_ok i1" and "item_save_ok i2" and "item_save_ok i3"
    and "generate_video_internal (item_env i1) (item_path i1) (form_emotion (item_emotion i1)) w
           = (Inr (p1, t1, n1), w1)"
    and "generate_video_internal (item_env i2) (item_path i2) (form_emotion (item_emotion i2)) w1
           = (Inl e, w2)"
    and "generate_video_internal (item_env i3) (item_path i3) (form_emotion (item_emotion i3))
           (w2\<lparr>printed := printed w2 @ [ErrorBatchItem 2 e]\<rparr>)
           = (Inr (p3, t3, n3), w3)"
  shows "batch_upload files w = (Archive [(n1, p1), (n3, p3)], w3)"
  using assms by (simp add: batch_upload_def)

lemmas example_defs = batch_one_fails_def batch_two_items_def item_first_def item_second_def
  item_third_def env_ok_def env_encoder_fails_def ok_commit_def world_two_def hook_shocked_def
  hook_urgent_def

lemmas pipeline_defs = batch_upload_def generate_video_internal_def select_hook_def
  random_choice_def create_text_overlay_def mark_hook_as_used_def mark_hook_as_used_try_def
  load_hooks_def load_used_hooks_def form_emotion_def py_min_def Let_def char_case_defs

text \<open>
  Claim C6, as the specification states it, fails: no failure count is reported. The
  response to a batch of three in which the second item fails is the same archive as the
  response to a batch of the other two items in which nothing fails.
\<close>

theorem batch_no_failure_count_counterexample:
  "fst (batch_upload batch_one_fails world_two) =
     Archive [(''hook_Shocked_01020304.mp4'', ''generated_shorts/hook_Shocked_01020304.mp4''),
              (''hook_Urgent_05060708.mp4'', ''generated_shorts/hook_Urgent_05060708.mp4'')]
   \<and> fst (batch_upload batch_two_items world_two) =
     Archive [(''hook_Shocked_01020304.mp4'', ''generated_shorts/hook_Shocked_01020304.mp4''),
              (''hook_Urgent_05060708.mp4'', ''generated_shorts/hook_Urgent_05060708.mp4'')]"
  by (simp add: example_defs pipeline_defs)

theorem batch_isolates_failure_witness:
  "batch_one_fails 1 = Some item_first \<and> batch_one_fails 2 = Some item_second
   \<and> batch_one_fails 3 = Some item_third
   \<and> item_save_ok item_first \<and> item_save_ok item_second \<and> item_save_ok item_third
   \<and> fst (generate_video_internal (item_env item_second) (item_path item_second)
         (form_emotion (item_emotion item_second))
         (snd (generate_video_internal (item_env item_first) (item_path item_first)
            (form_emotion (item_emotion item_first)) world_two))) = Inl CalledProcessError
   \<and> fst (batch_upload batch_one_fails world_two) =
       Archive [(''hook_Shocked_01020304.mp4'', ''generated_shorts/hook_Shocked_01020304.mp4''),
                (''hook_Urgent_05060708.mp4'', ''generated_shorts/hook_Urgent_05060708.mp4'')]
   \<and> ErrorBatchItem 2 CalledProcessError \<in> set (printed (snd (batch_upload batch_one_fails world_two)))"
proof -
  let ?g1 = "generate_video_internal (item_env item_first) (item_path item_first)
            (form_emotion (item_emotion item_first)) world_two"
  let ?g2 = "generate_video_internal (item_env item_second) (item_path item_second)
            (form_emotion (item_emotion item_second)) (snd ?g1)"
  let ?w2 = "(snd ?g2)\<lparr>printed := printed (snd ?g2) @ [ErrorBatchItem 2 CalledProcessError]\<rparr>"
  let ?g3 = "generate_video_internal (item_env item_third) (item_path item_third)
            (form_emotion (item_emotion item_third)) ?w2"
  have f: "batch_one_fails 1 = Some item_first" "batch_one_fails 2 = Some item_second"
    "batch_one_fails 3 = Some item_third"
    by (simp_all add: batch_one_fails_def)
  have n: "item_filename item_first \<noteq> []" "item_filename item_second \<noteq> []"
    "item_filename item_third \<noteq> []"
    by (simp_all add: item_first_def item_second_def item_third_def)
  have s: "item_save_ok item_first" "item_save_ok item_second" "item_save_ok item_third"
    by (simp_all add: item_first_def item_second_def item_third_def)
  have g1: "?g1 = (Inr (''generated_shorts/hook_Shocked_01020304.mp4'', ''Wait, this exists?'',
                       ''hook_Shocked_01020304.mp4''), snd ?g1)"
    by (simp add: example_defs pipeline_defs)
  have g2: "?g2 = (Inl CalledProcessError, snd ?g2)"
    by (simp add: example_defs pipeline_defs)
  have g3: "?g3 = (Inr (''generated_shorts/hook_Urgent_05060708.mp4'', ''Do this now'',
                       ''hook_Urgent_05060708.mp4''), snd ?g3)"
    by (simp add: example_defs pipeline_defs)
  have p: "ErrorBatchItem 2 CalledProcessError \<in> set (printed (snd ?g3))"
    by (simp add: example_defs pipeline_defs)
  have f2: "fst ?g2 = Inl CalledProcessError"
    by (subst g2) simp
  have b: "batch_upload batch_one_fails world_two =
      (Archive [(''hook_Shocked_01020304.mp4'', ''generated_shorts/hook_Shocked_01020304.mp4''),
                (''hook_Urgent_05060708.mp4'', ''generated_shorts/hook_Urgent_05060708.mp4'')],
       snd ?g3)"
    by (rule batch_isolates_failure [OF f n s g1 g2 g3])
  have b1: "fst (batch_upload batch_one_fails world_two) =
       Archive [(''hook_Shocked_01020304.mp4'', ''generated_shorts/hook_Shocked_01020304.mp4''),
                (''hook_Urgent_05060708.mp4'', ''generated_shorts/hook_Urgent_05060708.mp4'')]"
    by (subst b) simp
  have b2: "snd (batch_upload batch_one_fails world_two) = snd ?g3"
    by (subst b) simp
  have p': "ErrorBatchItem 2 CalledProcessError
      \<in> set (printed (snd (batch_upload batch_one_fails world_two)))"
    unfolding b2 by (rule p)
  from f s f2 b1 p' show ?thesis by blast
qed

end
